theory Spec2Isabelle
  imports Main "HOL-Library.Char_ord" "HOL-Library.List_Lexorder" "HOL-Library.Word"
begin

section \<open>Audit-chain verifier (kernel/tools/verify_audit_chain.py)\<close>

text \<open>
  A shallow embedding of the audit-chain verifier: \<open>normalize_json\<close>, \<open>compute_hash\<close>,
  \<open>verify_signature\<close>, \<open>verify_chain\<close> and the last lines of \<open>main\<close>.

  Events and payloads are the values \<open>json.load\<close> produces. A Python \<open>str\<close> is a
  \<open>string\<close> whose characters are code points below 256, compared lexicographically by
  code point as Python compares strings (\<open>Char_ord\<close>, \<open>List_Lexorder\<close>). A Python \<open>dict\<close> is
  an association list in insertion order; a list with pairwise distinct keys stands for a
  dict. Numbers are Python's unbounded integers; floating-point numbers are outside the
  embedding.
\<close>

subsection \<open>JSON values and Python's view of them\<close>

datatype json =
    JNull
  | JBool bool
  | JInt int
  | JStr string
  | JList "json list"
  | JDict "(string \<times> json) list"

type_synonym event = "(string \<times> json) list"

type_synonym bytes = "8 word list"

text \<open>\<open>event[k]\<close> is \<open>map_of event k\<close>, where \<open>None\<close> is the \<open>KeyError\<close>; \<open>event.get(k)\<close>
  gives Python's \<open>None\<close> (the value of JSON's null) for a missing key.\<close>

definition dict_get :: "event \<Rightarrow> string \<Rightarrow> json" where
  "dict_get event k = (case map_of event k of None \<Rightarrow> JNull | Some v \<Rightarrow> v)"

text \<open>Python's \<open>==\<close> on the values of \<open>json.load\<close>: \<open>bool\<close> is a subtype of \<open>int\<close>
  (\<open>True == 1\<close>), lists compare element by element, dicts compare as mappings whatever
  their insertion order.\<close>

fun py_eq :: "json \<Rightarrow> json \<Rightarrow> bool" where
  "py_eq JNull JNull = True"
| "py_eq (JBool a) (JBool b) = (a = b)"
| "py_eq (JBool a) (JInt n) = ((if a then 1 else 0) = n)"
| "py_eq (JInt n) (JBool b) = (n = (if b then 1 else 0))"
| "py_eq (JInt a) (JInt b) = (a = b)"
| "py_eq (JStr a) (JStr b) = (a = b)"
| "py_eq (JList xs) (JList ys) = list_all2 py_eq xs ys"
| "py_eq (JDict a) (JDict b) =
     (length a = length b \<and>
      (\<forall>(k, v) \<in> set a. case map_of b k of None \<Rightarrow> False | Some w \<Rightarrow> py_eq v w))"
| "py_eq _ _ = False"

text \<open>Truth value of an object in a condition (\<open>if x and y:\<close>).\<close>

fun truthy :: "json \<Rightarrow> bool" where
  "truthy JNull = False"
| "truthy (JBool b) = b"
| "truthy (JInt n) = (n \<noteq> 0)"
| "truthy (JStr s) = (s \<noteq> [])"
| "truthy (JList xs) = (xs \<noteq> [])"
| "truthy (JDict kvs) = (kvs \<noteq> [])"

subsection \<open>normalize\<close>

text \<open>
  \<^verbatim>\<open>
  def normalize(obj):
      if obj is None or not isinstance(obj, (dict, list)):
          return obj
      if isinstance(obj, list):
          return [normalize(x) for x in obj]
      if isinstance(obj, dict):
          return {k: normalize(v) for k, v in sorted(obj.items())}
      return obj
  \<close>
  The keys of a dict are distinct, so \<open>sorted(obj.items())\<close> orders the items by key.
  The function is \<open>normalize_json\<close> here, HOL having a \<open>normalize\<close> of its own.
\<close>

fun normalize_json :: "json \<Rightarrow> json" where
  "normalize_json JNull = JNull"
| "normalize_json (JBool b) = JBool b"
| "normalize_json (JInt n) = JInt n"
| "normalize_json (JStr s) = JStr s"
| "normalize_json (JList xs) = JList (map normalize_json xs)"
| "normalize_json (JDict kvs) = JDict (map (\<lambda>(k, v). (k, normalize_json v)) (sort_key fst kvs))"

subsection \<open>json.dumps(data, sort_keys=True, separators=(',', ':'))\<close>

text \<open>The standard library's encoder as the source calls it: keys sorted, no white space,
  \<open>ensure_ascii\<close> left at its default, so the output is ASCII.\<close>

definition hexdigit :: "nat \<Rightarrow> char" where
  "hexdigit n = ''0123456789abcdef'' ! (n mod 16)"

definition escape_char :: "char \<Rightarrow> string" where
  "escape_char c =
     (if c = CHR 0x22 then [CHR 0x5C, CHR 0x22]
      else if c = CHR 0x5C then [CHR 0x5C, CHR 0x5C]
      else if c = CHR 0x0A then [CHR 0x5C, CHR ''n'']
      else if c = CHR 0x0D then [CHR 0x5C, CHR ''r'']
      else if c = CHR 0x09 then [CHR 0x5C, CHR ''t'']
      else if c = CHR 0x08 then [CHR 0x5C, CHR ''b'']
      else if c = CHR 0x0C then [CHR 0x5C, CHR ''f'']
      else if 32 \<le> (of_char c :: nat) \<and> (of_char c :: nat) \<le> 126 then [c]
      else [CHR 0x5C, CHR ''u'', CHR ''0'', CHR ''0'',
            hexdigit ((of_char c :: nat) div 16), hexdigit ((of_char c :: nat) mod 16)])"

definition dumps_str :: "string \<Rightarrow> string" where
  "dumps_str s = [CHR 0x22] @ concat (map escape_char s) @ [CHR 0x22]"

function repr_nat :: "nat \<Rightarrow> string" where
  "repr_nat n = (if n < 10 then [hexdigit n] else repr_nat (n div 10) @ [hexdigit (n mod 10)])"
  by pat_completeness auto
termination
  by (relation "measure id") auto

definition repr_int :: "int \<Rightarrow> string" where
  "repr_int i = (if i < 0 then ''-'' @ repr_nat (nat (- i)) else repr_nat (nat i))"

fun str_join :: "string \<Rightarrow> string list \<Rightarrow> string" where
  "str_join sep [] = []"
| "str_join sep [x] = x"
| "str_join sep (x # y # ys) = x @ sep @ str_join sep (y # ys)"

fun dumps :: "json \<Rightarrow> string" where
  "dumps JNull = ''null''"
| "dumps (JBool b) = (if b then ''true'' else ''false'')"
| "dumps (JInt n) = repr_int n"
| "dumps (JStr s) = dumps_str s"
| "dumps (JList xs) = ''['' @ str_join '','' (map dumps xs) @ '']''"
| "dumps (JDict kvs) =
     ''{'' @ str_join '','' (map (\<lambda>(k, v). dumps_str k @ '':'' @ dumps v) (sort_key fst kvs)) @ ''}''"

subsection \<open>The libraries the verifier calls\<close>

text \<open>
  \<open>hashlib\<close>, \<open>base64\<close>, \<open>bytes.fromhex\<close> and the \<open>cryptography\<close> package are not code of
  the repository: they are parameters. \<open>HAS_CRYPTO\<close> is the module's flag, set when the
  import of \<open>cryptography\<close> succeeded; when it failed the module prints one warning
  while it is imported, before any call of \<open>verify_chain\<close>, which is not part of the
  output modelled here. A call that raises is \<open>None\<close>;
  \<open>ed25519_verify\<close> is \<open>False\<close> where \<open>public_key.verify\<close> raises.
\<close>

record 'key library =
  HAS_CRYPTO :: bool
  sha256 :: "bytes \<Rightarrow> bytes"
  load_pem_public_key :: "bytes \<Rightarrow> 'key option"
  b64decode :: "string \<Rightarrow> bytes option"
  fromhex :: "string \<Rightarrow> bytes option"
  ed25519_verify :: "'key \<Rightarrow> bytes \<Rightarrow> bytes \<Rightarrow> bool"

text \<open>\<open>s.encode('utf-8')\<close> on code points below 256, and \<open>.hexdigest()\<close>.\<close>

definition utf8_char :: "char \<Rightarrow> bytes" where
  "utf8_char c =
     (let n = (of_char c :: nat)
      in if n < 128 then [of_nat n] else [of_nat (192 + n div 64), of_nat (128 + n mod 64)])"

definition encode_utf8 :: "string \<Rightarrow> bytes" where
  "encode_utf8 s = concat (map utf8_char s)"

definition hexdigest :: "bytes \<Rightarrow> string" where
  "hexdigest bs = concat (map (\<lambda>b. [hexdigit (unat b div 16), hexdigit (unat b mod 16)]) bs)"

subsection \<open>compute_hash\<close>

text \<open>
  \<^verbatim>\<open>
  def compute_hash(event_type, payload, prev_hash, ts):
      data = {
          "eventType": event_type,
          "payload": normalize(payload),
          "prevHash": prev_hash,
          "ts": ts
      }
      canonical_json = json.dumps(data, sort_keys=True, separators=(',', ':'))
      return hashlib.sha256(canonical_json.encode('utf-8')).hexdigest()
  \<close>
\<close>

definition canonical_json :: "json \<Rightarrow> json \<Rightarrow> json \<Rightarrow> json \<Rightarrow> string" where
  "canonical_json event_type payload prev_hash ts =
     dumps (JDict [(''eventType'', event_type),
                   (''payload'', normalize_json payload),
                   (''prevHash'', prev_hash),
                   (''ts'', ts)])"

definition compute_hash :: "'key library \<Rightarrow> json \<Rightarrow> json \<Rightarrow> json \<Rightarrow> json \<Rightarrow> string" where
  "compute_hash env event_type payload prev_hash ts =
     hexdigest (sha256 env (encode_utf8 (canonical_json event_type payload prev_hash ts)))"

subsection \<open>verify_signature\<close>

text \<open>What the verifier prints. A FAIL entry stands for the lines of one failure report;
  it records the loop index \<open>i\<close> beside the \<open>id\<close> the source prints, so that a theorem can
  say at which position a failure was reported.\<close>

datatype line =
    NoEvents
  | Verifying json
  | HashMismatch nat json string json
  | ChainBreak nat json json json
  | SignatureVerificationFailed
  | SignatureInvalid nat json
  | Success
  | Failure

datatype error = KeyError string

text \<open>The library calls on a JSON value: a value that is not a \<open>str\<close> raises
  (\<open>TypeError\<close>, \<open>AttributeError\<close>).\<close>

definition py_b64decode :: "'key library \<Rightarrow> json \<Rightarrow> bytes option" where
  "py_b64decode env v = (case v of JStr s \<Rightarrow> b64decode env s | _ \<Rightarrow> None)"

definition py_fromhex :: "'key library \<Rightarrow> json \<Rightarrow> bytes option" where
  "py_fromhex env v = (case v of JStr s \<Rightarrow> fromhex env s | _ \<Rightarrow> None)"

definition py_encode :: "json \<Rightarrow> bytes option" where
  "py_encode v = (case v of JStr s \<Rightarrow> Some (encode_utf8 s) | _ \<Rightarrow> None)"

text \<open>
  \<^verbatim>\<open>
  def verify_signature(public_key_pem, signature_hex, data_hash):
      if not HAS_CRYPTO:
          return True # Mock pass
      try:
          public_key = serialization.load_pem_public_key(public_key_pem.encode('utf-8'))
          try:
              signature = base64.b64decode(signature_hex)
          except Exception:
              signature = bytes.fromhex(signature_hex)
          public_key.verify(signature, data_hash.encode('utf-8'))
          return True
      except Exception as e:
          print(f"Signature verification failed: {e}")
          return False
  \<close>
  The result is the returned value and the lines printed.
\<close>

definition verify_signature ::
  "'key library \<Rightarrow> string \<Rightarrow> json \<Rightarrow> json \<Rightarrow> bool \<times> line list" where
  "verify_signature env public_key_pem signature_hex data_hash =
     (if \<not> HAS_CRYPTO env then (True, [])
      else
        (case load_pem_public_key env (encode_utf8 public_key_pem) of
           None \<Rightarrow> (False, [SignatureVerificationFailed])
         | Some public_key \<Rightarrow>
            (case (case py_b64decode env signature_hex of
                     Some b \<Rightarrow> Some b
                   | None \<Rightarrow> py_fromhex env signature_hex) of
               None \<Rightarrow> (False, [SignatureVerificationFailed])
             | Some signature \<Rightarrow>
                (case py_encode data_hash of
                   None \<Rightarrow> (False, [SignatureVerificationFailed])
                 | Some data \<Rightarrow>
                    if ed25519_verify env public_key signature data then (True, [])
                    else (False, [SignatureVerificationFailed])))))"

subsection \<open>verify_chain\<close>

text \<open>The loop's variables and the output so far.\<close>

record vstate =
  valid :: bool
  previous_hash :: json
  stdout :: "line list"

text \<open>
  One iteration of \<open>for i, event in enumerate(events)\<close>; \<open>calc_hash\<close> is its first
  assignment. A missing key raises \<open>KeyError\<close> out of \<open>verify_chain\<close>: the result is then
  the output so far and the error.
  \<^verbatim>\<open>
        print(f"Verifying event {event.get('id')}...")
        calc_hash = compute_hash(event['eventType'], event['payload'],
                                 event.get('prevHash'), event['ts'])
        if calc_hash != event['hash']:
            print(f"FAIL: Hash mismatch for event {event.get('id')}") ...
            valid = False
        if i > 0:
            if event.get('prevHash') != previous_hash:
                print(f"FAIL: Chain broken at event {event.get('id')}") ...
                valid = False
        else:
            pass
        previous_hash = event['hash']
        if public_key_pem and event.get('signature'):
            if not verify_signature(public_key_pem, event['signature'], event['hash']):
                print(f"FAIL: Signature invalid for event {event.get('id')}")
                valid = False
  \<close>
\<close>

definition calc_hash :: "'key library \<Rightarrow> event \<Rightarrow> error + string" where
  "calc_hash env event =
     (case map_of event ''eventType'' of
        None \<Rightarrow> Inl (KeyError ''eventType'')
      | Some event_type \<Rightarrow>
         (case map_of event ''payload'' of
            None \<Rightarrow> Inl (KeyError ''payload'')
          | Some payload \<Rightarrow>
             (case map_of event ''ts'' of
                None \<Rightarrow> Inl (KeyError ''ts'')
              | Some ts \<Rightarrow>
                  Inr (compute_hash env event_type payload (dict_get event ''prevHash'') ts))))"

definition verify_event ::
  "'key library \<Rightarrow> string option \<Rightarrow> nat \<Rightarrow> vstate \<Rightarrow> event \<Rightarrow> (line list \<times> error) + vstate" where
  "verify_event env public_key_pem i st event =
     (let st1 = st\<lparr>stdout := stdout st @ [Verifying (dict_get event ''id'')]\<rparr> in
      case calc_hash env event of
        Inl err \<Rightarrow> Inl (stdout st1, err)
      | Inr calculated \<Rightarrow>
         (case map_of event ''hash'' of
            None \<Rightarrow> Inl (stdout st1, KeyError ''hash'')
          | Some stored \<Rightarrow>
             (let st2 =
                    (if \<not> py_eq (JStr calculated) stored
                     then st1\<lparr>valid := False,
                              stdout := stdout st1 @
                                [HashMismatch i (dict_get event ''id'') calculated stored]\<rparr>
                     else st1);
                  st3 =
                    (if 0 < i
                     then (if \<not> py_eq (dict_get event ''prevHash'') (previous_hash st2)
                           then st2\<lparr>valid := False,
                                    stdout := stdout st2 @
                                      [ChainBreak i (dict_get event ''id'') (previous_hash st2)
                                         (dict_get event ''prevHash'')]\<rparr>
                           else st2)
                     else st2);
                  st4 = st3\<lparr>previous_hash := stored\<rparr>
              in
                (case public_key_pem of
                   None \<Rightarrow> Inr st4
                 | Some pem \<Rightarrow>
                    if pem \<noteq> [] \<and> truthy (dict_get event ''signature'')
                    then (case verify_signature env pem (dict_get event ''signature'') stored of
                            (ok, printed) \<Rightarrow>
                              if \<not> ok
                              then Inr (st4\<lparr>valid := False,
                                            stdout := stdout st4 @ printed @
                                              [SignatureInvalid i (dict_get event ''id'')]\<rparr>)
                              else Inr (st4\<lparr>stdout := stdout st4 @ printed\<rparr>))
                    else Inr st4))))"

fun verify_loop ::
  "'key library \<Rightarrow> string option \<Rightarrow> nat \<Rightarrow> vstate \<Rightarrow> event list \<Rightarrow> line list \<times> (error + bool)" where
  "verify_loop env public_key_pem i st [] = (stdout st, Inr (valid st))"
| "verify_loop env public_key_pem i st (event # events) =
     (case verify_event env public_key_pem i st event of
        Inl (printed, err) \<Rightarrow> (printed, Inl err)
      | Inr st' \<Rightarrow> verify_loop env public_key_pem (Suc i) st' events)"

text \<open>
  \<^verbatim>\<open>
  def verify_chain(events, public_key_pem=None):
      if not events:
          print("No events to verify.")
          return True
      valid = True
      previous_hash = None
      for i, event in enumerate(events): ...
      return valid
  \<close>
\<close>

definition verify_chain ::
  "'key library \<Rightarrow> event list \<Rightarrow> string option \<Rightarrow> line list \<times> (error + bool)" where
  "verify_chain env events public_key_pem =
     (if events = [] then ([NoEvents], Inr True)
      else verify_loop env public_key_pem 0
             \<lparr>valid = True, previous_hash = JNull, stdout = []\<rparr> events)"

text \<open>The end of \<open>main\<close>, once the events and the key are read:
  \<^verbatim>\<open>
    if verify_chain(events, public_key_pem):
        print("SUCCESS: Chain verified.")
        sys.exit(0)
    else:
        print("FAILURE: Chain verification failed.")
        sys.exit(1)
  \<close>
  The result is the output and the exit status; an uncaught \<open>KeyError\<close> ends the process
  with a traceback and no verdict line.\<close>

definition main_report ::
  "'key library \<Rightarrow> event list \<Rightarrow> string option \<Rightarrow> line list \<times> (error + nat)" where
  "main_report env events public_key_pem =
     (case verify_chain env events public_key_pem of
        (printed, Inl err) \<Rightarrow> (printed, Inl err)
      | (printed, Inr ok) \<Rightarrow>
          if ok then (printed @ [Success], Inr 0) else (printed @ [Failure], Inr 1))"

subsection \<open>The specification's vocabulary\<close>

text \<open>The findings among the printed lines: the three FAIL reports of \<open>verify_chain\<close>.\<close>

fun is_finding :: "line \<Rightarrow> bool" where
  "is_finding (HashMismatch i ident calculated stored) = True"
| "is_finding (ChainBreak i ident expected actual) = True"
| "is_finding (SignatureInvalid i ident) = True"
| "is_finding other = False"

definition findings :: "line list \<Rightarrow> line list" where
  "findings printed = filter is_finding printed"

text \<open>An event that carries the four fields the loop reads with \<open>event[...]\<close>, and the
  first of them, in the order the loop reads them, that an event lacks.\<close>

definition has_fields :: "event \<Rightarrow> bool" where
  "has_fields event =
     (map_of event ''eventType'' \<noteq> None \<and> map_of event ''payload'' \<noteq> None \<and>
      map_of event ''ts'' \<noteq> None \<and> map_of event ''hash'' \<noteq> None)"

definition first_missing :: "event \<Rightarrow> string" where
  "first_missing event =
     (if map_of event ''eventType'' = None then ''eventType''
      else if map_of event ''payload'' = None then ''payload''
      else if map_of event ''ts'' = None then ''ts''
      else ''hash'')"

text \<open>The three invariants of the data model, for the event at position \<open>i\<close> of a sequence.
  The stored hash is the recomputed digest; the link of a non-first event is the stored
  hash of its predecessor; a signature that is checked validates, where the bytes of a
  signature are its base64 decoding, or its hex decoding when base64 fails.\<close>

definition hash_invariant :: "'key library \<Rightarrow> event \<Rightarrow> bool" where
  "hash_invariant env event =
     (case calc_hash env event of
        Inl err \<Rightarrow> False
      | Inr digest \<Rightarrow> map_of event ''hash'' = Some (JStr digest))"

definition link_invariant :: "event list \<Rightarrow> nat \<Rightarrow> bool" where
  "link_invariant events i =
     (dict_get (events ! i) ''prevHash'' = dict_get (events ! (i - 1)) ''hash'')"

definition signature_bytes :: "'key library \<Rightarrow> json \<Rightarrow> bytes option" where
  "signature_bytes env signature =
     (case signature of
        JStr s \<Rightarrow> (case b64decode env s of Some b \<Rightarrow> Some b | None \<Rightarrow> fromhex env s)
      | _ \<Rightarrow> None)"

definition signature_validates :: "'key library \<Rightarrow> string \<Rightarrow> json \<Rightarrow> json \<Rightarrow> bool" where
  "signature_validates env pem signature hash =
     (case (load_pem_public_key env (encode_utf8 pem), signature_bytes env signature, hash) of
        (Some public_key, Some b, JStr h) \<Rightarrow> ed25519_verify env public_key b (encode_utf8 h)
      | _ \<Rightarrow> False)"

definition signature_checked :: "string option \<Rightarrow> event \<Rightarrow> bool" where
  "signature_checked public_key_pem event =
     (case public_key_pem of
        None \<Rightarrow> False
      | Some pem \<Rightarrow> pem \<noteq> [] \<and> truthy (dict_get event ''signature''))"

definition signature_invariant :: "'key library \<Rightarrow> string option \<Rightarrow> event \<Rightarrow> bool" where
  "signature_invariant env public_key_pem event =
     (case public_key_pem of
        None \<Rightarrow> True
      | Some pem \<Rightarrow>
          \<not> signature_checked public_key_pem event \<or>
          signature_validates env pem (dict_get event ''signature'') (dict_get event ''hash''))"

text \<open>The report of one event, given the stored hash of its predecessor: the line that
  announces it, then what each of the three checks reports on its own.\<close>

definition hash_check :: "'key library \<Rightarrow> nat \<Rightarrow> event \<Rightarrow> line list" where
  "hash_check env i event =
     (case calc_hash env event of
        Inl err \<Rightarrow> []
      | Inr digest \<Rightarrow>
          if py_eq (JStr digest) (dict_get event ''hash'') then []
          else [HashMismatch i (dict_get event ''id'') digest (dict_get event ''hash'')])"

definition link_check :: "nat \<Rightarrow> json \<Rightarrow> event \<Rightarrow> line list" where
  "link_check i expected event =
     (if 0 < i \<and> \<not> py_eq (dict_get event ''prevHash'') expected
      then [ChainBreak i (dict_get event ''id'') expected (dict_get event ''prevHash'')]
      else [])"

definition signature_check :: "'key library \<Rightarrow> string option \<Rightarrow> nat \<Rightarrow> event \<Rightarrow> line list" where
  "signature_check env public_key_pem i event =
     (case public_key_pem of
        None \<Rightarrow> []
      | Some pem \<Rightarrow>
          if signature_checked public_key_pem event \<and>
             \<not> fst (verify_signature env pem (dict_get event ''signature'') (dict_get event ''hash''))
          then [SignatureVerificationFailed, SignatureInvalid i (dict_get event ''id'')]
          else [])"

definition event_report ::
  "'key library \<Rightarrow> string option \<Rightarrow> nat \<Rightarrow> json \<Rightarrow> event \<Rightarrow> line list" where
  "event_report env public_key_pem i expected event =
     [Verifying (dict_get event ''id'')] @ hash_check env i event @
     link_check i expected event @ signature_check env public_key_pem i event"

definition expected_prev :: "event list \<Rightarrow> nat \<Rightarrow> json" where
  "expected_prev events i = (if i = 0 then JNull else dict_get (events ! (i - 1)) ''hash'')"

definition chain_report :: "'key library \<Rightarrow> string option \<Rightarrow> event list \<Rightarrow> line list" where
  "chain_report env public_key_pem events =
     concat (map (\<lambda>i. event_report env public_key_pem i (expected_prev events i) (events ! i))
               [0..<length events])"

text \<open>The same report by recursion over the sequence, from position \<open>i\<close> on, where
  \<open>expected\<close> is the stored hash of the event before; and the stored hash that the loop
  holds after a sequence.\<close>

fun report_from ::
  "'key library \<Rightarrow> string option \<Rightarrow> nat \<Rightarrow> json \<Rightarrow> event list \<Rightarrow> line list" where
  "report_from env public_key_pem i expected [] = []"
| "report_from env public_key_pem i expected (event # events) =
     event_report env public_key_pem i expected event @
     report_from env public_key_pem (Suc i) (dict_get event ''hash'') events"

definition last_stored :: "json \<Rightarrow> event list \<Rightarrow> json" where
  "last_stored expected events =
     (if events = [] then expected else dict_get (last events) ''hash'')"

fun is_signature_line :: "line \<Rightarrow> bool" where
  "is_signature_line SignatureVerificationFailed = True"
| "is_signature_line (SignatureInvalid i ident) = True"
| "is_signature_line other = False"

text \<open>Two values that are equal up to the insertion order of the keys of their dicts, at
  any depth; each dict has distinct keys.\<close>

fun same_up_to_key_order :: "json \<Rightarrow> json \<Rightarrow> bool" where
  "same_up_to_key_order JNull JNull = True"
| "same_up_to_key_order (JBool a) (JBool b) = (a = b)"
| "same_up_to_key_order (JInt a) (JInt b) = (a = b)"
| "same_up_to_key_order (JStr a) (JStr b) = (a = b)"
| "same_up_to_key_order (JList xs) (JList ys) = list_all2 same_up_to_key_order xs ys"
| "same_up_to_key_order (JDict a) (JDict b) =
     (distinct (map fst a) \<and> distinct (map fst b) \<and> length a = length b \<and>
      (\<forall>(k, v) \<in> set a.
         case map_of b k of None \<Rightarrow> False | Some w \<Rightarrow> same_up_to_key_order v w))"
| "same_up_to_key_order _ _ = False"

fun keys_sorted :: "json \<Rightarrow> bool" where
  "keys_sorted (JList xs) = (\<forall>x \<in> set xs. keys_sorted x)"
| "keys_sorted (JDict kvs) = (sorted (map fst kvs) \<and> (\<forall>(k, v) \<in> set kvs. keys_sorted v))"
| "keys_sorted scalar = True"

subsection \<open>Examples\<close>

text \<open>A library for the examples: the sum of the bytes stands for SHA-256, every non-empty
  PEM text loads, and a signature verifies when it is the letter s followed by the data.
  The decoders know the signatures of the examples: three in base64 and two in hex (of
  six digits, which base64 refuses for its padding).\<close>

definition example_library :: "unit library" where
  "example_library =
     \<lparr>HAS_CRYPTO = True,
      sha256 = (\<lambda>bs. [sum_list bs]),
      load_pem_public_key = (\<lambda>bs. if bs = [] then None else Some ()),
      b64decode = map_of [(''c2Ez'', encode_utf8 ''sa3''), (''czI2'', encode_utf8 ''s26''),
                          (''c2Iy'', encode_utf8 ''sb2'')],
      fromhex = map_of [(''733936'', encode_utf8 ''s96''), (''736332'', encode_utf8 ''sc2'')],
      ed25519_verify = (\<lambda>k signature data. signature = 0x73 # data)\<rparr>"

text \<open>The same library where the import of \<open>cryptography\<close> failed.\<close>

definition no_crypto_library :: "unit library" where
  "no_crypto_library = example_library\<lparr>HAS_CRYPTO := False\<rparr>"

text \<open>A genesis event without a \<open>prevHash\<close> key, and the same event with an explicit null.\<close>

definition genesis_event :: event where
  "genesis_event =
     [(''id'', JStr ''e0''), (''eventType'', JStr ''login''),
      (''payload'', JDict [(''user'', JStr ''ada''), (''attempt'', JInt 1)]),
      (''ts'', JInt 1700), (''hash'', JStr ''a3'')]"

definition genesis_event_null :: event where
  "genesis_event_null = (''prevHash'', JNull) # genesis_event"

text \<open>A chain of three signed events that satisfies the three invariants; the third
  signature is in hex.\<close>

definition first_event :: event where
  "first_event =
     [(''id'', JStr ''e0''), (''eventType'', JStr ''login''),
      (''payload'', JDict [(''user'', JStr ''ada''), (''attempt'', JInt 1)]),
      (''prevHash'', JNull), (''ts'', JInt 1700), (''hash'', JStr ''a3''),
      (''signature'', JStr ''c2Ez'')]"

definition second_event :: event where
  "second_event =
     [(''id'', JStr ''e1''), (''eventType'', JStr ''update''),
      (''payload'', JList [JInt 1, JInt (- 2)]),
      (''prevHash'', JStr ''a3''), (''ts'', JInt 1701), (''hash'', JStr ''26''),
      (''signature'', JStr ''czI2'')]"

definition third_event :: event where
  "third_event =
     [(''id'', JStr ''e2''), (''eventType'', JStr ''logout''), (''payload'', JDict []),
      (''prevHash'', JStr ''26''), (''ts'', JInt 1702), (''hash'', JStr ''96''),
      (''signature'', JStr ''733936'')]"

definition valid_chain :: "event list" where
  "valid_chain = [first_event, second_event, third_event]"

text \<open>The same chain where the second event names a wrong predecessor; its hash and
  signature, and the third event, follow the changed event.\<close>

definition relinked_event :: event where
  "relinked_event =
     [(''id'', JStr ''e1''), (''eventType'', JStr ''update''),
      (''payload'', JList [JInt 1, JInt (- 2)]),
      (''prevHash'', JStr ''deadbeef''), (''ts'', JInt 1701), (''hash'', JStr ''b2''),
      (''signature'', JStr ''c2Iy'')]"

definition third_after_relinked :: event where
  "third_after_relinked =
     [(''id'', JStr ''e2''), (''eventType'', JStr ''logout''), (''payload'', JDict []),
      (''prevHash'', JStr ''b2''), (''ts'', JInt 1702), (''hash'', JStr ''c2''),
      (''signature'', JStr ''736332'')]"

definition relinked_chain :: "event list" where
  "relinked_chain = [first_event, relinked_event, third_after_relinked]"

text \<open>Events that fail: one without a \<open>hash\<close>, one whose payload was changed after it was
  hashed, one that carries the signature of another event.\<close>

definition incomplete_event :: event where
  "incomplete_event =
     [(''id'', JStr ''e1''), (''eventType'', JStr ''update''),
      (''payload'', JList [JInt 1, JInt (- 2)]),
      (''prevHash'', JStr ''a3''), (''ts'', JInt 1701)]"

definition tampered_event :: event where
  "tampered_event =
     [(''id'', JStr ''e2''), (''eventType'', JStr ''logout''),
      (''payload'', JDict [(''forged'', JBool True)]),
      (''prevHash'', JStr ''26''), (''ts'', JInt 1702), (''hash'', JStr ''96'')]"

definition forged_event :: event where
  "forged_event =
     [(''id'', JStr ''e3''), (''eventType'', JStr ''logout''), (''payload'', JDict []),
      (''prevHash'', JStr ''26''), (''ts'', JInt 1702), (''hash'', JStr ''96''),
      (''signature'', JStr ''c2Ez'')]"

text \<open>Two payloads that differ in the insertion order of their keys, at two depths.\<close>

definition payload_one :: json where
  "payload_one =
     JDict [(''user'', JStr ''ada''), (''attempt'', JInt 1),
            (''tags'', JList [JDict [(''b'', JNull), (''a'', JBool True)], JStr ''x''])]"

definition payload_other :: json where
  "payload_other =
     JDict [(''tags'', JList [JDict [(''a'', JBool True), (''b'', JNull)], JStr ''x'']),
            (''attempt'', JInt 1), (''user'', JStr ''ada'')]"

section \<open>Properties\<close>

subsection \<open>The hash of an event\<close>

lemma sort_key_hashed_fields:
  "sort_key fst [(''eventType'', a), (''payload'', b), (''prevHash'', c), (''ts'', d :: json)]
     = [(''eventType'', a), (''payload'', b), (''prevHash'', c), (''ts'', d)]"
  by (simp add: less_eq_char_def)

lemma hexdigit_lowercase: "hexdigit n \<in> set ''0123456789abcdef''"
  unfolding hexdigit_def by (rule nth_mem) simp

lemma hexdigest_lowercase: "set (hexdigest bs) \<subseteq> set ''0123456789abcdef''"
  unfolding hexdigest_def using hexdigit_lowercase by (induction bs) auto

lemma hexdigest_length: "length (hexdigest bs) = 2 * length bs"
  unfolding hexdigest_def by (induction bs) auto

lemma canonical_json_fields:
  \<open>canonical_json event_type payload prev_hash ts =
     ''{"eventType":'' @ dumps event_type @ '',"payload":'' @ dumps (normalize_json payload) @
     '',"prevHash":'' @ dumps prev_hash @ '',"ts":'' @ dumps ts @ ''}''\<close>
  by (simp add: canonical_json_def sort_key_hashed_fields dumps_str_def escape_char_def)

text \<open>
  C8. The recomputed digest is the SHA-256 digest of the UTF-8 bytes of the canonical
  encoding of the record of the four hashed fields, in the order eventType, payload
  (normalized), prevHash, ts and without white space, written in lowercase hexadecimal
  digits, two for each byte of the digest. It is a function of the four fields (and of the
  hash function) alone.
\<close>

theorem compute_hash_is_sha256_of_canonical_encoding:
  \<open>compute_hash env event_type payload prev_hash ts =
     hexdigest (sha256 env (encode_utf8
       (''{"eventType":'' @ dumps event_type @ '',"payload":'' @ dumps (normalize_json payload) @
        '',"prevHash":'' @ dumps prev_hash @ '',"ts":'' @ dumps ts @ ''}'')))
   \<and> set (compute_hash env event_type payload prev_hash ts) \<subseteq> set ''0123456789abcdef''
   \<and> length (compute_hash env event_type payload prev_hash ts) =
       2 * length (sha256 env (encode_utf8 (canonical_json event_type payload prev_hash ts)))\<close>
  unfolding compute_hash_def
  by (simp only: canonical_json_fields hexdigest_lowercase hexdigest_length simp_thms)

text \<open>
  C10. An event without a \<open>prevHash\<close> key and the same event with \<open>prevHash\<close> set to null
  are read alike: \<open>event.get('prevHash')\<close> is Python's \<open>None\<close> for both, so both have the
  same canonical encoding and the same recomputed digest, and the whole iteration of the
  loop gives the same result for both.
\<close>

theorem absent_prevHash_hashes_as_null:
  assumes "map_of event ''prevHash'' = None"
    and "map_of event' = (map_of event)(''prevHash'' \<mapsto> JNull)"
  shows "dict_get event ''prevHash'' = JNull \<and> dict_get event' ''prevHash'' = JNull
    \<and> canonical_json event_type payload (dict_get event' ''prevHash'') ts =
       canonical_json event_type payload (dict_get event ''prevHash'') ts
    \<and> calc_hash env event' = calc_hash env event
    \<and> verify_event env public_key_pem i st event' = verify_event env public_key_pem i st event"
proof -
  have get: "dict_get event ''prevHash'' = JNull" "dict_get event' ''prevHash'' = JNull"
    using assms by (simp_all add: dict_get_def)
  have other: "map_of event' k = map_of event k" if "k \<noteq> ''prevHash''" for k
    using assms(2) that by simp
  have fields: "map_of event' ''eventType'' = map_of event ''eventType''"
    "map_of event' ''payload'' = map_of event ''payload''"
    "map_of event' ''ts'' = map_of event ''ts''"
    "map_of event' ''hash'' = map_of event ''hash''"
    "dict_get event' ''id'' = dict_get event ''id''"
    "dict_get event' ''signature'' = dict_get event ''signature''"
    by (simp_all add: other dict_get_def)
  have calc: "calc_hash env event' = calc_hash env event"
    by (simp add: calc_hash_def fields get split: option.splits)
  have "verify_event env public_key_pem i st event' = verify_event env public_key_pem i st event"
    unfolding verify_event_def by (simp only: calc fields get)
  with get calc show ?thesis by simp
qed

theorem absent_prevHash_hashes_as_null_witness:
  "map_of genesis_event ''prevHash'' = None
   \<and> map_of genesis_event_null ''prevHash'' = Some JNull
   \<and> calc_hash example_library genesis_event = Inr ''a3''
   \<and> calc_hash example_library genesis_event_null = Inr ''a3''"
proof -
  have a: "map_of genesis_event ''prevHash'' = None"
    by (simp add: genesis_event_def)
  have b: "map_of genesis_event_null = (map_of genesis_event)(''prevHash'' \<mapsto> JNull)"
    by (simp add: genesis_event_null_def)
  have c: "calc_hash example_library genesis_event = Inr ''a3''"
    by code_simp
  from absent_prevHash_hashes_as_null [OF a b, of _ _ _ example_library] a b c
  show ?thesis by simp
qed

subsection \<open>The empty sequence\<close>

lemma verify_chain_Nil: "verify_chain env [] pk = ([NoEvents], Inr True)"
  by (simp add: verify_chain_def)

lemma main_report_Nil: "main_report env [] pk = ([NoEvents, Success], Inr 0)"
  by (simp add: main_report_def verify_chain_Nil)

text \<open>
  C6, as the code has it. For the empty sequence \<open>verify_chain\<close> prints that there are no
  events to verify, reports no finding and returns \<open>True\<close>; \<open>main\<close> then prints the success
  line and exits with status 0. The run does not abort.
\<close>

theorem empty_sequence_is_reported_valid:
  "verify_chain env [] public_key_pem = ([NoEvents], Inr True)
   \<and> findings (fst (verify_chain env [] public_key_pem)) = []
   \<and> main_report env [] public_key_pem = ([NoEvents, Success], Inr 0)"
  by (simp add: verify_chain_Nil main_report_Nil findings_def)

theorem empty_sequence_aborts_counterexample:
  "snd (verify_chain example_library [] None) = Inr True
   \<and> main_report example_library [] None = ([NoEvents, Success], Inr 0)"
  by (simp add: verify_chain_def main_report_def)

subsection \<open>Normalization and the order of keys\<close>

lemma keys_sorted_normalize: "keys_sorted (normalize_json p)"
  by (induction p rule: normalize_json.induct) (auto simp: comp_def case_prod_unfold)

lemma map_fst_normalized:
  "map fst (map (\<lambda>(k, v). (k, f v)) kvs) = map fst kvs"
  by (induction kvs) auto

lemma same_keys:
  assumes "distinct (map fst a)" "distinct (map fst b)" "length a = length b"
    and "\<forall>(k, v) \<in> set a. map_of b k \<noteq> None"
  shows "fst ` set a = fst ` set b"
proof -
  have sub: "fst ` set a \<subseteq> fst ` set b"
  proof
    fix k assume "k \<in> fst ` set a"
    then obtain v where "(k, v) \<in> set a" by auto
    with assms(4) have "map_of b k \<noteq> None" by auto
    then show "k \<in> fst ` set b" by (simp add: map_of_eq_None_iff)
  qed
  have "card (fst ` set a) = length a"
    using assms(1) distinct_card [of "map fst a"] by simp
  moreover have "card (fst ` set b) = length b"
    using assms(2) distinct_card [of "map fst b"] by simp
  ultimately have "card (fst ` set a) = card (fst ` set b)"
    using assms(3) by simp
  with sub show ?thesis
    by (simp add: card_subset_eq)
qed

lemma normalized_items_eq:
  assumes da: "distinct (map fst a)" and db: "distinct (map fst b)" and len: "length a = length b"
    and rel: "\<forall>(k, v) \<in> set a. case map_of b k of None \<Rightarrow> False | Some w \<Rightarrow> f v = f w"
  shows "(\<lambda>(k, v). (k, f v)) ` set a = (\<lambda>(k, v). (k, f v)) ` set b"
proof -
  have total: "\<forall>(k, v) \<in> set a. map_of b k \<noteq> None"
    using rel by (auto split: option.splits)
  have keys: "fst ` set a = fst ` set b"
    by (rule same_keys [OF da db len total])
  have fwd: "\<exists>w. (k, w) \<in> set b \<and> f v = f w" if kv: "(k, v) \<in> set a" for k v
  proof -
    from rel kv have "case map_of b k of None \<Rightarrow> False | Some w \<Rightarrow> f v = f w"
      by blast
    then obtain w where "map_of b k = Some w" "f v = f w"
      by (cases "map_of b k") auto
    then show ?thesis
      by (blast dest: map_of_SomeD)
  qed
  have bwd: "\<exists>v. (k, v) \<in> set a \<and> f v = f w" if kw: "(k, w) \<in> set b" for k w
  proof -
    from kw keys have "k \<in> fst ` set a" by force
    then obtain v where kv: "(k, v) \<in> set a" by auto
    from fwd [OF kv] obtain w' where w': "(k, w') \<in> set b" "f v = f w'" by blast
    from db kw w'(1) have "w' = w"
      by (metis map_of_is_SomeI option.inject)
    with kv w'(2) show ?thesis by blast
  qed
  show ?thesis
  proof (intro equalityI subsetI)
    fix x assume "x \<in> (\<lambda>(k, v). (k, f v)) ` set a"
    then obtain k v where "(k, v) \<in> set a" "x = (k, f v)" by auto
    with fwd [of k v] show "x \<in> (\<lambda>(k, v). (k, f v)) ` set b" by force
  next
    fix x assume "x \<in> (\<lambda>(k, v). (k, f v)) ` set b"
    then obtain k w where "(k, w) \<in> set b" "x = (k, f w)" by auto
    with bwd [of k w] show "x \<in> (\<lambda>(k, v). (k, f v)) ` set a" by force
  qed
qed

lemma normalized_dict_eq:
  assumes da: "distinct (map fst a)" and db: "distinct (map fst b)" and len: "length a = length b"
    and rel: "\<forall>(k, v) \<in> set a. case map_of b k of None \<Rightarrow> False | Some w \<Rightarrow> f v = f w"
  shows "map (\<lambda>(k, v). (k, f v)) (sort_key fst a) = map (\<lambda>(k, v). (k, f v)) (sort_key fst b)"
proof (rule map_sorted_distinct_set_unique [where f = fst])
  have sets: "(\<lambda>(k, v). (k, f v)) ` set a = (\<lambda>(k, v). (k, f v)) ` set b"
    by (rule normalized_items_eq [OF da db len rel])
  show "set (map (\<lambda>(k, v). (k, f v)) (sort_key fst a)) =
      set (map (\<lambda>(k, v). (k, f v)) (sort_key fst b))"
    using sets by simp
  have "distinct (map fst (map (\<lambda>(k, v). (k, f v)) a))"
    using da by (simp only: map_fst_normalized)
  then have "inj_on fst (set (map (\<lambda>(k, v). (k, f v)) a))"
    using distinct_map by blast
  then have "inj_on fst ((\<lambda>(k, v). (k, f v)) ` set a)"
    by simp
  then show "inj_on fst (set (map (\<lambda>(k, v). (k, f v)) (sort_key fst a)) \<union>
      set (map (\<lambda>(k, v). (k, f v)) (sort_key fst b)))"
    using sets by simp
  show "sorted (map fst (map (\<lambda>(k, v). (k, f v)) (sort_key fst a)))"
    "sorted (map fst (map (\<lambda>(k, v). (k, f v)) (sort_key fst b)))"
    by (simp_all only: map_fst_normalized sorted_sort_key)
  have "distinct (map fst (sort_key fst a))" "distinct (map fst (sort_key fst b))"
    using da db by (simp_all add: distinct_map)
  then show "distinct (map fst (map (\<lambda>(k, v). (k, f v)) (sort_key fst a)))"
    "distinct (map fst (map (\<lambda>(k, v). (k, f v)) (sort_key fst b)))"
    by (simp_all only: map_fst_normalized)
qed

lemma normalize_respects_key_order:
  "same_up_to_key_order p q \<Longrightarrow> normalize_json p = normalize_json q"
proof (induction p arbitrary: q)
  case (JList xs)
  from JList.prems obtain ys where q: "q = JList ys"
    and all: "list_all2 same_up_to_key_order xs ys"
    by (cases q) simp_all
  from all JList.IH have "map normalize_json xs = map normalize_json ys"
    by (induction rule: list_all2_induct) simp_all
  with q show ?case by simp
next
  case (JDict a)
  from JDict.prems obtain b where q: "q = JDict b"
    and da: "distinct (map fst a)" and db: "distinct (map fst b)"
    and len: "length a = length b"
    and rel: "\<forall>(k, v) \<in> set a.
      case map_of b k of None \<Rightarrow> False | Some w \<Rightarrow> same_up_to_key_order v w"
    by (cases q) simp_all
  have "\<forall>(k, v) \<in> set a.
    case map_of b k of None \<Rightarrow> False | Some w \<Rightarrow> normalize_json v = normalize_json w"
  proof (clarify)
    fix k v assume kv: "(k, v) \<in> set a"
    with rel have "case map_of b k of None \<Rightarrow> False | Some w \<Rightarrow> same_up_to_key_order v w"
      by blast
    then obtain w where w: "map_of b k = Some w" "same_up_to_key_order v w"
      by (cases "map_of b k") auto
    from kv have "v \<in> Basic_BNFs.snds (k, v)" by simp
    from JDict.IH [OF kv this w(2)] w(1)
    show "case map_of b k of None \<Rightarrow> False | Some w \<Rightarrow> normalize_json v = normalize_json w"
      by simp
  qed
  from normalized_dict_eq [OF da db len this] q show ?case by simp
next
  case JNull
  then show ?case by (cases q) simp_all
next
  case (JBool x)
  then show ?case by (cases q) simp_all
next
  case (JInt x)
  then show ?case by (cases q) simp_all
next
  case (JStr x)
  then show ?case by (cases q) simp_all
qed

lemma normalize_only_reorders:
  "same_up_to_key_order p p \<Longrightarrow> same_up_to_key_order p (normalize_json p)"
proof (induction p)
  case (JList xs)
  then show ?case by (auto simp: list_all2_map2 list_all2_same)
next
  case (JDict a)
  from JDict.prems have da: "distinct (map fst a)"
    and self: "\<forall>(k, v) \<in> set a.
      case map_of a k of None \<Rightarrow> False | Some w \<Rightarrow> same_up_to_key_order v w"
    by simp_all
  let ?n = "map (\<lambda>(k, v). (k, normalize_json v)) (sort_key fst a)"
  have "distinct (map fst (sort_key fst a))"
    using da by (simp add: distinct_map)
  then have dn: "distinct (map fst ?n)"
    by (simp only: map_fst_normalized)
  have "case map_of ?n k of None \<Rightarrow> False | Some w \<Rightarrow> same_up_to_key_order v w"
    if kv: "(k, v) \<in> set a" for k v
  proof -
    from da kv have "map_of a k = Some v" by (rule map_of_is_SomeI)
    with self kv have vv: "same_up_to_key_order v v" by auto
    from kv have "v \<in> Basic_BNFs.snds (k, v)" by simp
    from JDict.IH [OF kv this vv] have rel: "same_up_to_key_order v (normalize_json v)" .
    from kv have "(k, normalize_json v) \<in> set ?n" by force
    with dn have "map_of ?n k = Some (normalize_json v)" by (rule map_of_is_SomeI)
    with rel show ?thesis by simp
  qed
  then have "\<forall>(k, v) \<in> set a.
    case map_of ?n k of None \<Rightarrow> False | Some w \<Rightarrow> same_up_to_key_order v w"
    by blast
  with da dn show ?case by simp
qed simp_all

lemma same_up_to_key_order_left:
  "same_up_to_key_order p q \<Longrightarrow> same_up_to_key_order p p"
proof (induction p arbitrary: q)
  case (JList xs)
  from JList.prems obtain ys where all: "list_all2 same_up_to_key_order xs ys"
    by (cases q) simp_all
  have "same_up_to_key_order x x" if "x \<in> set xs" for x
  proof -
    from all that obtain y where "same_up_to_key_order x y"
      by (auto simp: list_all2_conv_all_nth in_set_conv_nth)
    with JList.IH [OF that] show ?thesis by blast
  qed
  then show ?case by (simp add: list_all2_same)
next
  case (JDict a)
  from JDict.prems have da: "distinct (map fst a)"
    by (cases q) simp_all
  from JDict.prems obtain b where rel: "\<forall>(k, v) \<in> set a.
      case map_of b k of None \<Rightarrow> False | Some w \<Rightarrow> same_up_to_key_order v w"
    by (cases q) auto
  have "case map_of a k of None \<Rightarrow> False | Some w \<Rightarrow> same_up_to_key_order v w"
    if kv: "(k, v) \<in> set a" for k v
  proof -
    from rel kv have "case map_of b k of None \<Rightarrow> False | Some w \<Rightarrow> same_up_to_key_order v w"
      by blast
    then obtain w where "same_up_to_key_order v w"
      by (cases "map_of b k") auto
    moreover from kv have "v \<in> Basic_BNFs.snds (k, v)" by simp
    ultimately have "same_up_to_key_order v v"
      using JDict.IH [OF kv] by blast
    moreover from da kv have "map_of a k = Some v" by (rule map_of_is_SomeI)
    ultimately show ?thesis by simp
  qed
  then have "\<forall>(k, v) \<in> set a.
    case map_of a k of None \<Rightarrow> False | Some w \<Rightarrow> same_up_to_key_order v w"
    by blast
  with da show ?case by simp
next
  case JNull
  then show ?case by (cases q) simp_all
next
  case (JBool x)
  then show ?case by (cases q) simp_all
next
  case (JInt x)
  then show ?case by (cases q) simp_all
next
  case (JStr x)
  then show ?case by (cases q) simp_all
qed

text \<open>
  C3. Two payloads that are equal up to the insertion order of the keys of their dicts, at
  any depth, have the same normal form, hence the same canonical encoding and the same
  digest. The normal form has the keys of every dict sorted and is itself equal to the
  payload up to the order of keys: a list keeps its order, with its elements normalized,
  and a scalar is unchanged.
\<close>

theorem canonical_encoding_ignores_key_order:
  assumes "same_up_to_key_order p q"
  shows "normalize_json p = normalize_json q
    \<and> canonical_json event_type p prev_hash ts = canonical_json event_type q prev_hash ts
    \<and> compute_hash env event_type p prev_hash ts = compute_hash env event_type q prev_hash ts
    \<and> keys_sorted (normalize_json p)
    \<and> same_up_to_key_order p (normalize_json p)
    \<and> normalize_json (JList xs) = JList (map normalize_json xs)
    \<and> normalize_json JNull = JNull \<and> normalize_json (JBool b) = JBool b
    \<and> normalize_json (JInt n) = JInt n \<and> normalize_json (JStr s) = JStr s"
proof -
  have eq: "normalize_json p = normalize_json q"
    using assms by (rule normalize_respects_key_order)
  have "same_up_to_key_order p p"
    using assms by (rule same_up_to_key_order_left)
  then have "same_up_to_key_order p (normalize_json p)"
    by (rule normalize_only_reorders)
  with eq show ?thesis
    by (simp add: canonical_json_def compute_hash_def keys_sorted_normalize)
qed

theorem canonical_encoding_ignores_key_order_witness:
  "same_up_to_key_order payload_one payload_other
   \<and> payload_one \<noteq> payload_other
   \<and> normalize_json payload_one = normalize_json payload_other
   \<and> compute_hash example_library (JStr ''login'') payload_one JNull (JInt 1700) =
     compute_hash example_library (JStr ''login'') payload_other JNull (JInt 1700)"
proof -
  have a: "same_up_to_key_order payload_one payload_other"
    by code_simp
  have b: "payload_one \<noteq> payload_other"
    by (simp add: payload_one_def payload_other_def)
  from canonical_encoding_ignores_key_order [OF a] a b show ?thesis
    by blast
qed

subsection \<open>The loop of verify_chain\<close>

lemma verify_signature_cases:
  "verify_signature env pem signature hash =
     (if \<not> HAS_CRYPTO env \<or> signature_validates env pem signature hash then (True, [])
      else (False, [SignatureVerificationFailed]))"
  by (auto simp: verify_signature_def signature_validates_def signature_bytes_def
      py_b64decode_def py_fromhex_def py_encode_def split: option.splits json.splits)

lemma verify_signature_printed:
  "snd (verify_signature env pem signature hash) =
     (if fst (verify_signature env pem signature hash) then [] else [SignatureVerificationFailed])"
  by (simp add: verify_signature_cases)

lemma has_fields_calc_hash:
  "has_fields event \<Longrightarrow> \<exists>digest. calc_hash env event = Inr digest"
  by (auto simp: has_fields_def calc_hash_def)

lemma calc_hash_error:
  "calc_hash env event = Inl err \<Longrightarrow> \<not> has_fields event \<and> err = KeyError (first_missing event)"
  by (auto simp: has_fields_def calc_hash_def first_missing_def split: option.splits)

lemma verify_event_missing:
  assumes "\<not> has_fields event"
  shows "verify_event env pk i st event =
    Inl (stdout st @ [Verifying (dict_get event ''id'')], KeyError (first_missing event))"
proof (cases "calc_hash env event")
  case (Inl err)
  with calc_hash_error [OF Inl] show ?thesis
    by (simp add: verify_event_def)
next
  case (Inr digest)
  then have "map_of event ''eventType'' \<noteq> None" "map_of event ''payload'' \<noteq> None"
    "map_of event ''ts'' \<noteq> None"
    by (auto simp: calc_hash_def split: option.splits)
  with assms have "map_of event ''hash'' = None" "first_missing event = ''hash''"
    by (auto simp: has_fields_def first_missing_def)
  with Inr show ?thesis
    by (simp add: verify_event_def)
qed

lemma verify_event_complete:
  assumes "has_fields event"
  shows "verify_event env pk i st event =
    Inr \<lparr>valid = (valid st \<and> findings (event_report env pk i (previous_hash st) event) = []),
         previous_hash = dict_get event ''hash'',
         stdout = stdout st @ event_report env pk i (previous_hash st) event\<rparr>"
proof -
  from assms obtain digest where calc: "calc_hash env event = Inr digest"
    using has_fields_calc_hash by blast
  from assms obtain stored where stored: "map_of event ''hash'' = Some stored"
    by (auto simp: has_fields_def)
  then have get: "dict_get event ''hash'' = stored"
    by (simp add: dict_get_def)
  show ?thesis
  proof (cases pk)
    case None
    then show ?thesis
      by (simp add: verify_event_def calc stored get Let_def event_report_def hash_check_def
          link_check_def signature_check_def findings_def)
  next
    case (Some pem)
    obtain ok printed where vs: "verify_signature env pem (dict_get event ''signature'') stored = (ok, printed)"
      by (cases "verify_signature env pem (dict_get event ''signature'') stored")
    with verify_signature_printed [of env pem "dict_get event ''signature''" stored]
    have printed: "printed = (if ok then [] else [SignatureVerificationFailed])"
      by simp
    show ?thesis
      using Some vs printed
      by (simp add: verify_event_def calc stored get Let_def event_report_def hash_check_def
          link_check_def signature_check_def signature_checked_def findings_def)
  qed
qed

lemma findings_append: "findings (xs @ ys) = findings xs @ findings ys"
  by (simp add: findings_def)

lemma last_stored_Cons:
  "last_stored (dict_get event ''hash'') events = last_stored expected (event # events)"
  by (simp add: last_stored_def)

lemma verify_loop_append:
  assumes "list_all has_fields pre"
  shows "verify_loop env pk i st (pre @ rest) =
    verify_loop env pk (i + length pre)
      \<lparr>valid = (valid st \<and> findings (report_from env pk i (previous_hash st) pre) = []),
       previous_hash = last_stored (previous_hash st) pre,
       stdout = stdout st @ report_from env pk i (previous_hash st) pre\<rparr> rest"
  using assms
proof (induction pre arbitrary: i st)
  case Nil
  then show ?case by (cases st) (simp add: last_stored_def findings_def)
next
  case (Cons event pre)
  then have "has_fields event" and pre: "list_all has_fields pre"
    by simp_all
  note step = verify_event_complete [OF \<open>has_fields event\<close>, of env pk i st]
  show ?case
    by (simp add: step Cons.IH [OF pre] findings_append last_stored_Cons [symmetric] conj_assoc)
qed

lemma verify_loop_complete:
  assumes "list_all has_fields events"
  shows "verify_loop env pk i st events =
    (stdout st @ report_from env pk i (previous_hash st) events,
     Inr (valid st \<and> findings (report_from env pk i (previous_hash st) events) = []))"
  using verify_loop_append [OF assms, of env pk i st "[]"] by simp

lemma report_from_index:
  "report_from env pk i expected events =
     concat (map (\<lambda>j. event_report env pk (i + j)
                    (if j = 0 then expected else dict_get (events ! (j - 1)) ''hash'')
                    (events ! j)) [0..<length events])"
proof (induction events arbitrary: i expected)
  case Nil
  then show ?case by simp
next
  case (Cons event events)
  have upt: "[0..<length (event # events)] = 0 # map Suc [0..<length events]"
    by (simp add: upt_conv_Cons map_Suc_upt del: upt_Suc)
  show ?case
    unfolding upt
    by (simp add: Cons.IH comp_def nth_Cons' if_distrib [of "\<lambda>e. dict_get e ''hash''"]
        del: upt_Suc)
qed

lemma chain_report_from: "chain_report env pk events = report_from env pk 0 JNull events"
  by (simp add: chain_report_def report_from_index expected_prev_def)

lemma verify_chain_complete:
  assumes "list_all has_fields events" "events \<noteq> []"
  shows "verify_chain env events pk =
    (chain_report env pk events, Inr (findings (chain_report env pk events) = []))"
  using assms by (simp add: verify_chain_def verify_loop_complete chain_report_from)

lemma verify_chain_missing:
  assumes "list_all has_fields pre" "\<not> has_fields event"
  shows "verify_chain env (pre @ event # rest) pk =
    (chain_report env pk pre @ [Verifying (dict_get event ''id'')],
     Inl (KeyError (first_missing event)))"
  using assms
  by (simp add: verify_chain_def verify_loop_append verify_event_missing chain_report_from)

lemma signature_check_reports:
  "signature_check env public_key_pem i event =
     (case public_key_pem of
        None \<Rightarrow> []
      | Some pem \<Rightarrow>
          if pem \<noteq> [] \<and> truthy (dict_get event ''signature'') \<and> HAS_CRYPTO env \<and>
             \<not> signature_validates env pem (dict_get event ''signature'') (dict_get event ''hash'')
          then [SignatureVerificationFailed, SignatureInvalid i (dict_get event ''id'')]
          else [])"
  by (simp add: signature_check_def signature_checked_def verify_signature_cases
      split: option.splits)

text \<open>
  C7, as the code has it. When every event carries the four fields \<open>eventType\<close>,
  \<open>payload\<close>, \<open>ts\<close> and \<open>hash\<close>, the output is the report of every event in order: each
  event is announced, its digest is recomputed, and each check reports its failure,
  whatever the other checks and the events before it found; the verdict is that no finding
  was printed. The signature check reports a failure exactly when a key is supplied, the
  event carries a signature, the \<open>cryptography\<close> package is present and the signature does
  not validate: without the package no signature is ever reported. An event that lacks one
  of the fields ends the run, so the events after it are not examined.
\<close>

theorem every_event_and_check_is_reported:
  assumes "list_all has_fields events"
  shows "verify_chain env events public_key_pem =
      (if events = [] then ([NoEvents], Inr True)
       else (chain_report env public_key_pem events,
             Inr (findings (chain_report env public_key_pem events) = [])))
    \<and> signature_check env public_key_pem i event =
      (case public_key_pem of
         None \<Rightarrow> []
       | Some pem \<Rightarrow>
           if pem \<noteq> [] \<and> truthy (dict_get event ''signature'') \<and> HAS_CRYPTO env \<and>
              \<not> signature_validates env pem (dict_get event ''signature'')
                  (dict_get event ''hash'')
           then [SignatureVerificationFailed, SignatureInvalid i (dict_get event ''id'')]
           else [])
    \<and> (\<forall>e \<in> set events. \<exists>digest. calc_hash env e = Inr digest)"
proof -
  have "\<forall>e \<in> set events. \<exists>digest. calc_hash env e = Inr digest"
    using assms has_fields_calc_hash by (auto simp: list_all_iff)
  with assms show ?thesis
    by (simp only: signature_check_reports simp_thms)
      (simp add: verify_chain_Nil verify_chain_complete)
qed

theorem every_event_and_check_is_reported_witness:
  "list_all has_fields [first_event, tampered_event, forged_event]
   \<and> HAS_CRYPTO example_library
   \<and> verify_chain example_library [first_event, tampered_event, forged_event] (Some ''PEM'') =
     ([Verifying (JStr ''e0''),
       Verifying (JStr ''e2''),
       HashMismatch 1 (JStr ''e2'') ''4b'' (JStr ''96''),
       ChainBreak 1 (JStr ''e2'') (JStr ''a3'') (JStr ''26''),
       Verifying (JStr ''e3''),
       ChainBreak 2 (JStr ''e3'') (JStr ''96'') (JStr ''26''),
       SignatureVerificationFailed,
       SignatureInvalid 2 (JStr ''e3'')], Inr False)
   \<and> signature_check example_library (Some ''PEM'') 2 forged_event =
     [SignatureVerificationFailed, SignatureInvalid 2 (JStr ''e3'')]
   \<and> verify_chain no_crypto_library [first_event, tampered_event, forged_event] (Some ''PEM'') =
     ([Verifying (JStr ''e0''),
       Verifying (JStr ''e2''),
       HashMismatch 1 (JStr ''e2'') ''4b'' (JStr ''96''),
       ChainBreak 1 (JStr ''e2'') (JStr ''a3'') (JStr ''26''),
       Verifying (JStr ''e3''),
       ChainBreak 2 (JStr ''e3'') (JStr ''96'') (JStr ''26'')], Inr False)
   \<and> signature_check no_crypto_library (Some ''PEM'') 2 forged_event = []"
proof -
  have a: "list_all has_fields [first_event, tampered_event, forged_event]"
    "HAS_CRYPTO example_library"
    by code_simp+
  have b: "chain_report example_library (Some ''PEM'') [first_event, tampered_event, forged_event] =
     [Verifying (JStr ''e0''),
       Verifying (JStr ''e2''),
       HashMismatch 1 (JStr ''e2'') ''4b'' (JStr ''96''),
       ChainBreak 1 (JStr ''e2'') (JStr ''a3'') (JStr ''26''),
       Verifying (JStr ''e3''),
       ChainBreak 2 (JStr ''e3'') (JStr ''96'') (JStr ''26''),
       SignatureVerificationFailed,
       SignatureInvalid 2 (JStr ''e3'')]"
    by code_simp
  have c: "chain_report no_crypto_library (Some ''PEM'') [first_event, tampered_event, forged_event] =
     [Verifying (JStr ''e0''),
       Verifying (JStr ''e2''),
       HashMismatch 1 (JStr ''e2'') ''4b'' (JStr ''96''),
       ChainBreak 1 (JStr ''e2'') (JStr ''a3'') (JStr ''26''),
       Verifying (JStr ''e3''),
       ChainBreak 2 (JStr ''e3'') (JStr ''96'') (JStr ''26'')]"
    by code_simp
  have d: "signature_check example_library (Some ''PEM'') 2 forged_event =
     [SignatureVerificationFailed, SignatureInvalid 2 (JStr ''e3'')]"
    "signature_check no_crypto_library (Some ''PEM'') 2 forged_event = []"
    by code_simp+
  from every_event_and_check_is_reported [OF a(1), of example_library "Some ''PEM''"]
    every_event_and_check_is_reported [OF a(1), of no_crypto_library "Some ''PEM''"] a d
  show ?thesis
    unfolding b c by (simp add: findings_def)
qed

theorem later_events_unexamined_counterexample:
  "verify_chain example_library [first_event, incomplete_event, tampered_event] (Some ''PEM'') =
     ([Verifying (JStr ''e0''), Verifying (JStr ''e1'')], Inl (KeyError ''hash''))
   \<and> hash_check example_library 2 tampered_event =
     [HashMismatch 2 (JStr ''e2'') ''4b'' (JStr ''96'')]
   \<and> verify_chain no_crypto_library [first_event, second_event, forged_event] (Some ''PEM'') =
     ([Verifying (JStr ''e0''), Verifying (JStr ''e1''), Verifying (JStr ''e3'')], Inr True)
   \<and> signature_validates no_crypto_library ''PEM'' (dict_get forged_event ''signature'')
        (dict_get forged_event ''hash'') = False
   \<and> signature_checked (Some ''PEM'') forged_event"
  by code_simp

text \<open>
  C4, as the code has it. The first event that lacks \<open>eventType\<close>, \<open>payload\<close>, \<open>ts\<close> or
  \<open>hash\<close> raises \<open>KeyError\<close> for the first field it lacks: the events before it are reported
  as usual, the event itself is announced, and the run ends there with no verdict and no
  finding for the missing field, whatever follows.
\<close>

theorem missing_field_raises_KeyError:
  assumes "list_all has_fields before" and "\<not> has_fields event"
  shows "verify_chain env (before @ event # after) public_key_pem =
    (chain_report env public_key_pem before @ [Verifying (dict_get event ''id'')],
     Inl (KeyError (first_missing event)))"
  using assms by (rule verify_chain_missing)

theorem missing_field_raises_KeyError_witness:
  "list_all has_fields [first_event] \<and> \<not> has_fields incomplete_event
   \<and> verify_chain example_library ([first_event] @ incomplete_event # [tampered_event]) None =
     ([Verifying (JStr ''e0''), Verifying (JStr ''e1'')], Inl (KeyError ''hash''))"
proof -
  have a: "list_all has_fields [first_event]"
    by code_simp
  have b: "\<not> has_fields incomplete_event"
    by code_simp
  have c: "chain_report example_library None [first_event] = [Verifying (JStr ''e0'')]"
    by code_simp
  have d: "dict_get incomplete_event ''id'' = JStr ''e1''"
    "first_missing incomplete_event = ''hash''"
    by code_simp+
  from missing_field_raises_KeyError [OF a b, of example_library "[tampered_event]" None] a b
  show ?thesis
    unfolding c d by simp
qed

theorem missing_field_finding_counterexample:
  "verify_chain example_library [incomplete_event, tampered_event] None =
     ([Verifying (JStr ''e1'')], Inl (KeyError ''hash''))"
  by code_simp

subsection \<open>Signatures\<close>

lemma signature_validates_iff:
  "signature_validates env pem signature hash =
     (\<exists>public_key b h. load_pem_public_key env (encode_utf8 pem) = Some public_key \<and>
        signature_bytes env signature = Some b \<and> hash = JStr h \<and>
        ed25519_verify env public_key b (encode_utf8 h))"
  by (auto simp: signature_validates_def split: option.splits json.splits)

text \<open>
  C9, as the code has it. When the \<open>cryptography\<close> package is present, \<open>verify_signature\<close>
  returns valid exactly when the PEM key loads, the signature decodes (from base64, and
  from hex only when base64 fails) and the decoded signature verifies over the UTF-8 bytes
  of the hash string; otherwise it prints a failure line and returns invalid. When the
  package is absent it returns valid without looking at the signature.
\<close>

theorem verify_signature_checks_hash_bytes:
  "(HAS_CRYPTO env \<longrightarrow>
      verify_signature env pem signature hash =
        (if signature_validates env pem signature hash then (True, [])
         else (False, [SignatureVerificationFailed])))
   \<and> (\<not> HAS_CRYPTO env \<longrightarrow> verify_signature env pem signature hash = (True, []))
   \<and> signature_validates env pem signature hash =
       (\<exists>public_key b h. load_pem_public_key env (encode_utf8 pem) = Some public_key \<and>
          signature_bytes env signature = Some b \<and> hash = JStr h \<and>
          ed25519_verify env public_key b (encode_utf8 h))
   \<and> (b64decode env s = Some decoded \<longrightarrow> signature_bytes env (JStr s) = Some decoded)
   \<and> (b64decode env s = None \<longrightarrow> signature_bytes env (JStr s) = fromhex env s)"
proof -
  have "b64decode env s = Some decoded \<longrightarrow> signature_bytes env (JStr s) = Some decoded"
    and "b64decode env s = None \<longrightarrow> signature_bytes env (JStr s) = fromhex env s"
    by (simp_all add: signature_bytes_def)
  then show ?thesis
    using signature_validates_iff [of env pem signature hash]
    by (simp only: verify_signature_cases) simp
qed

theorem verify_signature_checks_hash_bytes_witness:
  "HAS_CRYPTO example_library
   \<and> verify_signature example_library ''PEM'' (JStr ''c2Ez'') (JStr ''a3'') = (True, [])
   \<and> b64decode example_library ''733936'' = None
   \<and> verify_signature example_library ''PEM'' (JStr ''733936'') (JStr ''96'') = (True, [])
   \<and> verify_signature example_library ''PEM'' (JStr ''c2Ez'') (JStr ''96'') =
       (False, [SignatureVerificationFailed])
   \<and> \<not> HAS_CRYPTO no_crypto_library
   \<and> verify_signature no_crypto_library ''PEM'' (JStr ''c2Ez'') (JStr ''96'') = (True, [])"
proof -
  have a: "HAS_CRYPTO example_library" "\<not> HAS_CRYPTO no_crypto_library"
    by (simp_all add: example_library_def no_crypto_library_def)
  have b: "signature_validates example_library ''PEM'' (JStr ''c2Ez'') (JStr ''a3'')"
    "signature_validates example_library ''PEM'' (JStr ''733936'') (JStr ''96'')"
    "\<not> signature_validates example_library ''PEM'' (JStr ''c2Ez'') (JStr ''96'')"
    "b64decode example_library ''733936'' = None"
    by code_simp+
  from a b
    verify_signature_checks_hash_bytes [of example_library "''PEM''" "JStr ''c2Ez''" "JStr ''a3''"]
    verify_signature_checks_hash_bytes [of example_library "''PEM''" "JStr ''733936''" "JStr ''96''"]
    verify_signature_checks_hash_bytes [of example_library "''PEM''" "JStr ''c2Ez''" "JStr ''96''"]
    verify_signature_checks_hash_bytes [of no_crypto_library "''PEM''" "JStr ''c2Ez''" "JStr ''96''"]
  show ?thesis by simp
qed

theorem mock_pass_counterexample:
  "verify_signature no_crypto_library ''PEM'' (JStr ''not a signature'') (JStr ''96'') = (True, [])
   \<and> signature_bytes no_crypto_library (JStr ''not a signature'') = None
   \<and> verify_signature no_crypto_library ''PEM'' (JStr ''c2Ez'') (JStr ''96'') = (True, [])
   \<and> signature_bytes no_crypto_library (JStr ''c2Ez'') = Some (encode_utf8 ''sa3'')
   \<and> ed25519_verify no_crypto_library () (encode_utf8 ''sa3'') (encode_utf8 ''96'') = False"
  by code_simp

subsection \<open>Runs without a key\<close>

lemma signature_check_None: "signature_check env None i event = []"
  by (simp add: signature_check_def)

lemma signature_check_invariant:
  "signature_invariant env pk event \<Longrightarrow> signature_check env pk i event = []"
  by (cases pk) (auto simp: signature_invariant_def signature_check_def verify_signature_cases)

lemma event_report_invariant:
  "signature_invariant env (Some pem) event \<Longrightarrow>
   event_report env (Some pem) i expected event = event_report env None i expected event"
  by (simp add: event_report_def signature_check_invariant signature_check_None)

lemma verify_event_unchecked:
  assumes "signature_invariant env (Some pem) event"
  shows "verify_event env (Some pem) i st event = verify_event env None i st event"
proof (cases "has_fields event")
  case True
  then show ?thesis
    by (simp add: verify_event_complete event_report_invariant [OF assms])
next
  case False
  then show ?thesis
    by (simp add: verify_event_missing)
qed

lemma verify_loop_unchecked:
  "list_all (signature_invariant env (Some pem)) events \<Longrightarrow>
   verify_loop env (Some pem) i st events = verify_loop env None i st events"
  by (induction events arbitrary: i st)
    (simp_all add: verify_event_unchecked split: sum.splits prod.splits)

lemma verify_chain_unchecked:
  "list_all (signature_invariant env (Some pem)) events \<Longrightarrow>
   verify_chain env events (Some pem) = verify_chain env events None"
  by (simp add: verify_chain_def verify_loop_unchecked)

lemma event_report_None_signature_lines:
  "filter is_signature_line (event_report env None i expected event) = []"
  by (simp add: event_report_def signature_check_None hash_check_def link_check_def
      split: sum.splits)

lemma verify_event_None_signature_lines:
  "verify_event env None i st event = Inr st' \<Longrightarrow>
   filter is_signature_line (stdout st') = filter is_signature_line (stdout st)"
  by (cases "has_fields event")
    (auto simp: verify_event_complete verify_event_missing event_report_None_signature_lines)

lemma verify_event_None_error_lines:
  "verify_event env None i st event = Inl (printed, err) \<Longrightarrow>
   filter is_signature_line printed = filter is_signature_line (stdout st)"
  by (cases "has_fields event") (auto simp: verify_event_complete verify_event_missing)

lemma verify_loop_None_signature_lines:
  "filter is_signature_line (fst (verify_loop env None i st events)) =
   filter is_signature_line (stdout st)"
proof (induction events arbitrary: i st)
  case Nil
  then show ?case by simp
next
  case (Cons event events)
  show ?case
  proof (cases "verify_event env None i st event")
    case (Inl a)
    then show ?thesis
      using verify_event_None_error_lines [of env i st event "fst a" "snd a"]
      by (simp add: case_prod_unfold)
  next
    case (Inr st')
    then show ?thesis
      using Cons.IH [of "Suc i" st'] verify_event_None_signature_lines [OF Inr]
      by simp
  qed
qed

lemma verify_chain_None_signature_lines:
  "filter is_signature_line (fst (verify_chain env events None)) = []"
  by (simp add: verify_chain_def verify_loop_None_signature_lines)

text \<open>
  C5, as the code has it. A run without a public key prints no signature line, so it has
  no SignatureInvalid finding, whatever signatures the events carry. A check that is
  skipped, for want of a key or of a signature, leaves no trace: when every signature
  that is checked under a key validates, the run with the key and the run without it
  return the same value and print the same lines, and \<open>main\<close> reports both alike.
\<close>

theorem skipped_signature_checks_are_silent:
  "filter is_signature_line (fst (verify_chain env events None)) = []
   \<and> (list_all (signature_invariant env (Some pem)) events \<longrightarrow>
        verify_chain env events (Some pem) = verify_chain env events None
        \<and> main_report env events (Some pem) = main_report env events None)"
  by (simp add: verify_chain_None_signature_lines verify_chain_unchecked main_report_def)

theorem skipped_signature_checks_are_silent_witness:
  "list_all (signature_invariant example_library (Some ''PEM'')) valid_chain
   \<and> list_all (signature_checked (Some ''PEM'')) valid_chain
   \<and> verify_chain example_library valid_chain (Some ''PEM'') =
       verify_chain example_library valid_chain None
   \<and> filter is_signature_line
        (fst (verify_chain example_library [first_event, forged_event] None)) = []
   \<and> filter is_signature_line
        (fst (verify_chain example_library [first_event, forged_event] (Some ''PEM''))) =
       [SignatureVerificationFailed, SignatureInvalid 1 (JStr ''e3'')]"
proof -
  have a: "list_all (signature_invariant example_library (Some ''PEM'')) valid_chain"
    "list_all (signature_checked (Some ''PEM'')) valid_chain"
    by code_simp+
  have b: "filter is_signature_line
        (fst (verify_chain example_library [first_event, forged_event] (Some ''PEM''))) =
       [SignatureVerificationFailed, SignatureInvalid 1 (JStr ''e3'')]"
    by code_simp
  from a b
    skipped_signature_checks_are_silent [of example_library valid_chain "''PEM''"]
    skipped_signature_checks_are_silent [of example_library "[first_event, forged_event]" "''PEM''"]
  show ?thesis by simp
qed

theorem skipped_checks_not_surfaced_counterexample:
  "verify_chain example_library valid_chain None =
     ([Verifying (JStr ''e0''), Verifying (JStr ''e1''), Verifying (JStr ''e2'')], Inr True)
   \<and> verify_chain example_library valid_chain (Some ''PEM'') =
     ([Verifying (JStr ''e0''), Verifying (JStr ''e1''), Verifying (JStr ''e2'')], Inr True)
   \<and> main_report example_library valid_chain None =
     ([Verifying (JStr ''e0''), Verifying (JStr ''e1''), Verifying (JStr ''e2''), Success], Inr 0)
   \<and> main_report example_library valid_chain (Some ''PEM'') =
     ([Verifying (JStr ''e0''), Verifying (JStr ''e1''), Verifying (JStr ''e2''), Success], Inr 0)
   \<and> list_all (signature_checked (Some ''PEM'')) valid_chain"
  by code_simp

subsection \<open>Chains that satisfy the invariants\<close>

lemma py_eq_JStr: "py_eq x (JStr d) = (x = JStr d)"
  by (cases x) auto

lemma hash_invariant_fields:
  assumes "hash_invariant env event"
  shows "has_fields event" and "hash_check env i event = []"
    and "\<exists>digest. dict_get event ''hash'' = JStr digest"
proof -
  from assms obtain digest where calc: "calc_hash env event = Inr digest"
    and stored: "map_of event ''hash'' = Some (JStr digest)"
    by (auto simp: hash_invariant_def split: sum.splits)
  from calc have "map_of event ''eventType'' \<noteq> None" "map_of event ''payload'' \<noteq> None"
    "map_of event ''ts'' \<noteq> None"
    by (auto simp: calc_hash_def split: option.splits)
  with stored show "has_fields event"
    by (simp add: has_fields_def)
  from stored have get: "dict_get event ''hash'' = JStr digest"
    by (simp add: dict_get_def)
  then show "\<exists>digest. dict_get event ''hash'' = JStr digest" ..
  from calc get show "hash_check env i event = []"
    by (simp add: hash_check_def)
qed

lemma link_check_holds:
  "dict_get event ''prevHash'' = JStr d \<Longrightarrow> link_check i (JStr d) event = []"
  by (simp add: link_check_def)

lemma link_check_broken:
  "0 < i \<Longrightarrow> dict_get event ''prevHash'' \<noteq> JStr d \<Longrightarrow>
   link_check i (JStr d) event =
     [ChainBreak i (dict_get event ''id'') (JStr d) (dict_get event ''prevHash'')]"
  by (simp add: link_check_def py_eq_JStr)

lemma link_check_first: "link_check 0 expected event = []"
  by (simp add: link_check_def)

lemma chain_report_pointwise:
  assumes "\<And>j. j < length events \<Longrightarrow>
    event_report env pk j (expected_prev events j) (events ! j) = g j"
  shows "chain_report env pk events = concat (map g [0..<length events])"
proof -
  have "map (\<lambda>j. event_report env pk j (expected_prev events j) (events ! j)) [0..<length events] =
      map g [0..<length events]"
    by (rule map_cong [OF refl]) (simp add: assms)
  then show ?thesis
    by (simp only: chain_report_def)
qed

lemma map_over_indices: "map (\<lambda>j. f (xs ! j)) [0..<length xs] = map f xs"
proof -
  have "map f (map ((!) xs) [0..<length xs]) = map f xs"
    by (simp only: map_nth)
  then show ?thesis
    by (simp add: comp_def)
qed

lemma concat_single_position:
  "concat (map (\<lambda>j. if j = i then [x] else []) [0..<n]) = (if i < n then [x] else [])"
  by (induction n) auto

lemma findings_concat: "findings (concat xss) = concat (map findings xss)"
  by (induction xss) (simp_all add: findings_def)

lemma event_report_invariants:
  assumes inv: "\<forall>e \<in> set events. hash_invariant env e \<and> signature_invariant env pk e"
    and j: "j < length events"
  shows "event_report env pk j (expected_prev events j) (events ! j) =
    Verifying (dict_get (events ! j) ''id'') # link_check j (expected_prev events j) (events ! j)"
proof -
  from inv j have "hash_invariant env (events ! j)" "signature_invariant env pk (events ! j)"
    by simp_all
  then show ?thesis
    by (simp add: event_report_def hash_invariant_fields(2) signature_check_invariant)
qed

lemma expected_prev_stored:
  assumes inv: "\<forall>e \<in> set events. hash_invariant env e \<and> signature_invariant env pk e"
    and j: "0 < j" "j < length events"
  shows "\<exists>d. expected_prev events j = JStr d"
proof -
  from j have "events ! (j - 1) \<in> set events" by simp
  with inv have "hash_invariant env (events ! (j - 1))" by blast
  from hash_invariant_fields(3) [OF this] j(1) show ?thesis
    by (simp add: expected_prev_def)
qed

text \<open>
  C1. When every event of a sequence satisfies the hash invariant and the signature
  invariant, and every event but the first names the stored hash of its predecessor,
  \<open>verify_chain\<close> prints one line for each event, no finding, and returns \<open>True\<close>.
\<close>

theorem valid_chain_has_no_findings:
  assumes inv: "\<forall>e \<in> set events. hash_invariant env e \<and> signature_invariant env public_key_pem e"
    and links: "\<forall>i \<in> {1..<length events}. link_invariant events i"
  shows "verify_chain env events public_key_pem =
      (if events = [] then [NoEvents] else map (\<lambda>e. Verifying (dict_get e ''id'')) events,
       Inr True)
    \<and> findings (fst (verify_chain env events public_key_pem)) = []"
proof -
  have fields: "list_all has_fields events"
    using inv hash_invariant_fields(1) by (auto simp: list_all_iff)
  have report: "event_report env public_key_pem j (expected_prev events j) (events ! j) =
      [Verifying (dict_get (events ! j) ''id'')]" if j: "j < length events" for j
  proof (cases "j = 0")
    case True
    with event_report_invariants [OF inv j] show ?thesis
      by (simp add: link_check_first)
  next
    case False
    then have pos: "0 < j" by simp
    from expected_prev_stored [OF inv pos j] obtain d where d: "expected_prev events j = JStr d" ..
    from links pos j have "link_invariant events j" by simp
    with d pos have "dict_get (events ! j) ''prevHash'' = JStr d"
      by (simp add: link_invariant_def expected_prev_def)
    with event_report_invariants [OF inv j] d show ?thesis
      by (simp add: link_check_holds)
  qed
  have "chain_report env public_key_pem events =
      concat (map (\<lambda>j. [Verifying (dict_get (events ! j) ''id'')]) [0..<length events])"
    by (rule chain_report_pointwise) (rule report)
  then have chain: "chain_report env public_key_pem events =
      map (\<lambda>e. Verifying (dict_get e ''id'')) events"
    using map_over_indices [of "\<lambda>e. Verifying (dict_get e ''id'')" events] by simp
  have none: "findings (map (\<lambda>e. Verifying (dict_get e ''id'')) events) = []"
    by (induction events) (simp_all add: findings_def)
  show ?thesis
  proof (cases "events = []")
    case True
    then show ?thesis by (simp add: verify_chain_Nil findings_def)
  next
    case False
    with verify_chain_complete [OF fields False, of env public_key_pem] chain none
    show ?thesis by simp
  qed
qed

theorem valid_chain_has_no_findings_witness:
  "list_all (hash_invariant example_library) valid_chain
   \<and> list_all (signature_invariant example_library (Some ''PEM'')) valid_chain
   \<and> list_all (link_invariant valid_chain) [1..<length valid_chain]
   \<and> list_all (signature_checked (Some ''PEM'')) valid_chain
   \<and> verify_chain example_library valid_chain (Some ''PEM'') =
     ([Verifying (JStr ''e0''), Verifying (JStr ''e1''), Verifying (JStr ''e2'')], Inr True)"
proof -
  have a: "\<forall>e \<in> set valid_chain.
      hash_invariant example_library e \<and> signature_invariant example_library (Some ''PEM'') e"
    by code_simp
  have b: "\<forall>i \<in> {1..<length valid_chain}. link_invariant valid_chain i"
    by code_simp
  have c: "list_all (signature_checked (Some ''PEM'')) valid_chain"
    "list_all (hash_invariant example_library) valid_chain"
    "list_all (signature_invariant example_library (Some ''PEM'')) valid_chain"
    "list_all (link_invariant valid_chain) [1..<length valid_chain]"
    by code_simp+
  have d: "valid_chain \<noteq> []"
    "map (\<lambda>e. Verifying (dict_get e ''id'')) valid_chain =
      [Verifying (JStr ''e0''), Verifying (JStr ''e1''), Verifying (JStr ''e2'')]"
    by code_simp+
  from valid_chain_has_no_findings [OF a b] c d show ?thesis
    by simp
qed

text \<open>
  C2. An iteration that completes leaves the stored hash of its event in \<open>previous_hash\<close>,
  whatever it found. Hence, in a sequence that satisfies the hash and signature invariants
  and whose links hold everywhere but at position \<open>i > 0\<close>, the output is the line of each
  event with one ChainBreak after the line of event \<open>i\<close>: that is the only finding, no
  later event is reported, and the verdict is \<open>False\<close>.
\<close>

theorem single_chain_break_does_not_cascade:
  assumes inv: "\<forall>e \<in> set events. hash_invariant env e \<and> signature_invariant env public_key_pem e"
    and pos: "0 < i" and len: "i < length events"
    and links: "\<forall>j \<in> {1..<length events}. j \<noteq> i \<longrightarrow> link_invariant events j"
    and broken: "\<not> link_invariant events i"
  shows "verify_chain env events public_key_pem =
      (concat (map (\<lambda>j. Verifying (dict_get (events ! j) ''id'') #
                      (if j = i
                       then [ChainBreak i (dict_get (events ! i) ''id'')
                               (dict_get (events ! (i - 1)) ''hash'')
                               (dict_get (events ! i) ''prevHash'')]
                       else []))
                 [0..<length events]),
       Inr False)
    \<and> findings (fst (verify_chain env events public_key_pem)) =
      [ChainBreak i (dict_get (events ! i) ''id'') (dict_get (events ! (i - 1)) ''hash'')
         (dict_get (events ! i) ''prevHash'')]
    \<and> (verify_event env public_key_pem k st event = Inr st' \<longrightarrow>
         previous_hash st' = dict_get event ''hash'')"
proof -
  let ?break = "ChainBreak i (dict_get (events ! i) ''id'') (dict_get (events ! (i - 1)) ''hash'')
         (dict_get (events ! i) ''prevHash'')"
  let ?g = "\<lambda>j. Verifying (dict_get (events ! j) ''id'') # (if j = i then [?break] else [])"
  have fields: "list_all has_fields events"
    using inv hash_invariant_fields(1) by (auto simp: list_all_iff)
  from len have nonempty: "events \<noteq> []" by auto
  have report: "event_report env public_key_pem j (expected_prev events j) (events ! j) = ?g j"
    if j: "j < length events" for j
  proof (cases "j = 0")
    case True
    with event_report_invariants [OF inv j] pos show ?thesis
      by (simp add: link_check_first)
  next
    case False
    then have jpos: "0 < j" by simp
    from expected_prev_stored [OF inv jpos j] obtain d where d: "expected_prev events j = JStr d" ..
    show ?thesis
    proof (cases "j = i")
      case True
      with broken d jpos have "dict_get (events ! j) ''prevHash'' \<noteq> JStr d"
        by (simp add: link_invariant_def expected_prev_def)
      from link_check_broken [OF jpos this] event_report_invariants [OF inv j] d True jpos
      show ?thesis
        by (simp add: expected_prev_def)
    next
      case False
      with links jpos j have "link_invariant events j" by simp
      with d jpos have "dict_get (events ! j) ''prevHash'' = JStr d"
        by (simp add: link_invariant_def expected_prev_def)
      with event_report_invariants [OF inv j] d False show ?thesis
        by (simp add: link_check_holds)
    qed
  qed
  have chain: "chain_report env public_key_pem events = concat (map ?g [0..<length events])"
    by (rule chain_report_pointwise) (rule report)
  have each: "findings (?g j) = (if j = i then [?break] else [])" for j
    by (simp add: findings_def)
  have "findings (concat (map ?g [0..<length events])) =
      concat (map (\<lambda>j. findings (?g j)) [0..<length events])"
    by (simp add: findings_concat comp_def)
  then have "findings (concat (map ?g [0..<length events])) =
      concat (map (\<lambda>j. if j = i then [?break] else []) [0..<length events])"
    by (simp only: each)
  with len have found: "findings (chain_report env public_key_pem events) = [?break]"
    by (simp only: chain concat_single_position if_True)
  have state: "previous_hash st' = dict_get event ''hash''"
    if "verify_event env public_key_pem k st event = Inr st'"
    using that by (cases "has_fields event") (auto simp: verify_event_complete verify_event_missing)
  from verify_chain_complete [OF fields nonempty, of env public_key_pem] chain found state
  show ?thesis by simp
qed

theorem single_chain_break_does_not_cascade_witness:
  "list_all (hash_invariant example_library) relinked_chain
   \<and> list_all (signature_invariant example_library (Some ''PEM'')) relinked_chain
   \<and> length relinked_chain = 3 \<and> link_invariant relinked_chain 2
   \<and> \<not> link_invariant relinked_chain 1
   \<and> verify_chain example_library relinked_chain (Some ''PEM'') =
     ([Verifying (JStr ''e0''), Verifying (JStr ''e1''),
       ChainBreak 1 (JStr ''e1'') (JStr ''a3'') (JStr ''deadbeef''),
       Verifying (JStr ''e2'')], Inr False)"
proof -
  have a: "\<forall>e \<in> set relinked_chain.
      hash_invariant example_library e \<and> signature_invariant example_library (Some ''PEM'') e"
    by code_simp
  have b: "\<forall>j \<in> {1..<length relinked_chain}. j \<noteq> 1 \<longrightarrow> link_invariant relinked_chain j"
    by code_simp
  have c: "\<not> link_invariant relinked_chain 1"
    by code_simp
  have d: "(0::nat) < 1" "1 < length relinked_chain"
    by (simp_all add: relinked_chain_def)
  have f: "list_all (hash_invariant example_library) relinked_chain"
    "list_all (signature_invariant example_library (Some ''PEM'')) relinked_chain"
    "length relinked_chain = 3" "link_invariant relinked_chain 2"
    by code_simp+
  have e: "concat (map (\<lambda>j. Verifying (dict_get (relinked_chain ! j) ''id'') #
                      (if j = 1
                       then [ChainBreak 1 (dict_get (relinked_chain ! 1) ''id'')
                               (dict_get (relinked_chain ! (1 - 1)) ''hash'')
                               (dict_get (relinked_chain ! 1) ''prevHash'')]
                       else []))
                 [0..<length relinked_chain]) =
     [Verifying (JStr ''e0''), Verifying (JStr ''e1''),
       ChainBreak 1 (JStr ''e1'') (JStr ''a3'') (JStr ''deadbeef''),
       Verifying (JStr ''e2'')]"
    by code_simp
  from single_chain_break_does_not_cascade [OF a d b c] c f show ?thesis
    unfolding e by simp
qed

end
